theory Spec2Isabelle
  imports Main
begin

section \<open>Strings\<close>

text \<open>
  A JavaScript string is a sequence of UTF-16 code units; a code unit is modelled by its
  number. The hook only compares and concatenates strings; the diff renderer also
  classifies code units as white space.
\<close>

type_synonym js_string = "nat list"

text \<open>String literals of the source (all of them ASCII) are written \<open>js ''...''\<close>.\<close>

definition js :: "string \<Rightarrow> js_string" where
  "js s = map of_char s"

text \<open>
  The code units matched by \<^verbatim>\<open>\s\<close> in a regular expression and removed by
  \<^verbatim>\<open>String.prototype.trim\<close>: ECMAScript's WhiteSpace and LineTerminator
  (TAB, LF, VT, FF, CR, SP, NBSP, U+1680, U+2000 to U+200A, U+2028, U+2029, U+202F,
  U+205F, U+3000, U+FEFF). All of them are single code units.
\<close>

definition isWhiteSpace :: "nat \<Rightarrow> bool" where
  "isWhiteSpace c \<longleftrightarrow>
     c \<in> {9, 10, 11, 12, 13, 32, 160, 5760, 8232, 8233, 8239, 8287, 12288, 65279}
     \<or> (8192 \<le> c \<and> c \<le> 8202)"

text \<open>\<^verbatim>\<open>s.trim()\<close>: white space removed from both ends.\<close>

definition trim :: "js_string \<Rightarrow> js_string" where
  "trim s = rev (dropWhile isWhiteSpace (rev (dropWhile isWhiteSpace s)))"

text \<open>
  \<^verbatim>\<open>s.split(/\s+/)\<close>: the string is cut at every maximal run of white space; the
  pieces between the runs are kept, empty ones too (before a leading run, after a
  trailing one), and a string with no white space at all, the empty string included, is
  returned as the only piece. \<open>split_from w s\<close> has read the piece \<open>w\<close> so far and
  continues on \<open>s\<close>.
\<close>

function split_from :: "js_string \<Rightarrow> js_string \<Rightarrow> js_string list" where
  "split_from w [] = [w]"
| "split_from w (c # cs) =
     (if isWhiteSpace c then w # split_from [] (dropWhile isWhiteSpace cs)
      else split_from (w @ [c]) cs)"
  by pat_completeness auto
termination
  by (relation "measure (\<lambda>(w, s). length s)")
     (auto simp: le_imp_less_Suc length_dropWhile_le)

definition split_ws :: "js_string \<Rightarrow> js_string list" where
  "split_ws s = split_from [] s"


section \<open>Word-level diff (TranscriptSegment.tsx, computeWordDiff)\<close>

datatype DiffType = added | removed | unchanged

record DiffPart =
  part_type :: DiffType
  part_text :: js_string

text \<open>
  The \<^verbatim>\<open>while\<close> loop of \<^verbatim>\<open>computeWordDiff\<close>, with its two cursors \<open>i\<close> and \<open>j\<close>
  and the array \<open>result\<close> it pushes to. Every array read of the source is guarded by a
  bounds test, which the model keeps.
\<close>

function diff_loop ::
  "js_string list \<Rightarrow> js_string list \<Rightarrow> nat \<Rightarrow> nat \<Rightarrow> DiffPart list \<Rightarrow> DiffPart list"
where
  "diff_loop originalWords editedWords i j result =
     (if i < length originalWords \<or> j < length editedWords then
        (if i \<ge> length originalWords then
           diff_loop originalWords editedWords i (j + 1)
             (result @ [\<lparr>part_type = added, part_text = editedWords ! j\<rparr>])
         else if j \<ge> length editedWords then
           diff_loop originalWords editedWords (i + 1) j
             (result @ [\<lparr>part_type = removed, part_text = originalWords ! i\<rparr>])
         else if originalWords ! i = editedWords ! j then
           diff_loop originalWords editedWords (i + 1) (j + 1)
             (result @ [\<lparr>part_type = unchanged, part_text = originalWords ! i\<rparr>])
         else
           (let origNextMatchesEdited =
                  (i + 1 < length originalWords \<and> originalWords ! (i + 1) = editedWords ! j);
                editedNextMatchesOrig =
                  (j + 1 < length editedWords \<and> editedWords ! (j + 1) = originalWords ! i)
            in if origNextMatchesEdited then
                 diff_loop originalWords editedWords (i + 1) j
                   (result @ [\<lparr>part_type = removed, part_text = originalWords ! i\<rparr>])
               else if editedNextMatchesOrig then
                 diff_loop originalWords editedWords i (j + 1)
                   (result @ [\<lparr>part_type = added, part_text = editedWords ! j\<rparr>])
               else
                 diff_loop originalWords editedWords (i + 1) (j + 1)
                   (result @ [\<lparr>part_type = removed, part_text = originalWords ! i\<rparr>,
                              \<lparr>part_type = added, part_text = editedWords ! j\<rparr>])))
      else result)"
  by pat_completeness auto
termination
  by (relation "measure (\<lambda>(ow, ew, i, j, r). (length ow - i) + (length ew - j))") auto

declare diff_loop.simps [simp del]

definition computeWordDiff :: "js_string \<Rightarrow> js_string \<Rightarrow> DiffPart list" where
  "computeWordDiff original edited =
     (let originalWords = split_ws (trim original);
          editedWords = split_ws (trim edited)
      in diff_loop originalWords editedWords 0 0 [])"

text \<open>
  The walk as the specification words it, on the two word sequences that remain: equal
  heads are \<open>unchanged\<close>; when one side is exhausted the rest of the other side is
  emitted; at a mismatch, if the next original word equals the current edited word the
  current original word is a pure deletion, else if the next edited word equals the
  current original word the current edited word is a pure insertion, else it is a
  substitution, one \<open>removed\<close> and one \<open>added\<close> part, both sides advancing.
\<close>

fun spec_walk :: "js_string list \<Rightarrow> js_string list \<Rightarrow> DiffPart list" where
  "spec_walk [] [] = []"
| "spec_walk [] (e # es) = \<lparr>part_type = added, part_text = e\<rparr> # spec_walk [] es"
| "spec_walk (x # xs) [] = \<lparr>part_type = removed, part_text = x\<rparr> # spec_walk xs []"
| "spec_walk (x # xs) (e # es) =
     (if x = e then \<lparr>part_type = unchanged, part_text = x\<rparr> # spec_walk xs es
      else if xs \<noteq> [] \<and> hd xs = e then
        \<lparr>part_type = removed, part_text = x\<rparr> # spec_walk xs (e # es)
      else if es \<noteq> [] \<and> hd es = x then
        \<lparr>part_type = added, part_text = e\<rparr> # spec_walk (x # xs) es
      else
        \<lparr>part_type = removed, part_text = x\<rparr> # \<lparr>part_type = added, part_text = e\<rparr>
          # spec_walk xs es)"


section \<open>The transcript hook (useTranscription.ts)\<close>

subsection \<open>Data\<close>

text \<open>
  The records keep the fields the hook reads or writes, and the speaker and original
  text of a segment; the remaining fields of the source's interfaces (times, confidence,
  words, colours, dates) are copied unchanged by every object spread and are left out.
\<close>

record Segment =
  seg_id :: js_string
  seg_text :: js_string
  original_text :: "js_string option"
  seg_speaker_id :: js_string
  is_edited :: bool

record SpeakerLabel =
  label_id :: js_string
  speaker_id :: js_string
  custom_name :: "js_string option"

record Transcript =
  segments :: "Segment list"
  speaker_labels :: "SpeakerLabel list"

record EditHistoryItem =
  segmentId :: js_string
  previousText :: js_string
  newText :: js_string
  timestamp :: int

definition MAX_HISTORY :: int where
  "MAX_HISTORY = 50"

text \<open>
  The requests the hook sends: \<^verbatim>\<open>updateSegment(segmentId, { text })\<close> and
  \<^verbatim>\<open>updateSpeakerLabel(labelId, { custom_name: name })\<close>.
\<close>

datatype request =
  PatchSegment js_string js_string
| PatchSpeakerLabel js_string js_string

text \<open>
  How an awaited request ends: it resolves, or it rejects with a value that is an
  \<^verbatim>\<open>Error\<close> (with its message) or is not.
\<close>

datatype thrown = Error js_string | NotAnError

datatype response = Resolved | Rejected thrown

text \<open>\<^verbatim>\<open>err instanceof Error ? err.message : fallback\<close>\<close>

definition message_of :: "thrown \<Rightarrow> js_string \<Rightarrow> js_string" where
  "message_of err fallback = (case err of Error message \<Rightarrow> message | NotAnError \<Rightarrow> fallback)"

text \<open>
  The state of the hook: its six \<^verbatim>\<open>useState\<close> cells and the ref \<open>isUndoRedo\<close>,
  together with the two things of the environment it touches: the list of requests
  sent so far, and \<open>date_now\<close>, the value \<^verbatim>\<open>Date.now()\<close> returns.
\<close>

record hook_state =
  transcript :: "Transcript option"
  loading :: bool
  error :: "js_string option"
  speakerNames :: "js_string \<rightharpoonup> js_string"
  editHistory :: "EditHistoryItem list"
  historyIndex :: int
  isUndoRedo :: bool
  requests :: "request list"
  date_now :: int

definition initial_state :: hook_state where
  "initial_state =
     \<lparr>transcript = None, loading = False, error = None, speakerNames = Map.empty,
      editHistory = [], historyIndex = - 1, isUndoRedo = False, requests = [],
      date_now = 0\<rparr>"

subsection \<open>Array operations of JavaScript\<close>

text \<open>\<^verbatim>\<open>xs[i]\<close> for an integer \<open>i\<close>: \<^verbatim>\<open>undefined\<close> (here \<open>None\<close>) out of range.\<close>

definition js_index :: "'a list \<Rightarrow> int \<Rightarrow> 'a option" where
  "js_index xs i = (if 0 \<le> i \<and> i < int (length xs) then Some (xs ! nat i) else None)"

text \<open>
  \<^verbatim>\<open>xs.slice(0, end)\<close>: a negative \<open>end\<close> counts from the end of the array, and the
  result is clipped to the array.
\<close>

definition js_slice0 :: "'a list \<Rightarrow> int \<Rightarrow> 'a list" where
  "js_slice0 xs end =
     (let len = int (length xs);
          final = (if end < 0 then max (len + end) 0 else min end len)
      in take (nat final) xs)"

subsection \<open>The speaker-name effect\<close>

text \<open>\<^verbatim>\<open>label.custom_name || `Speaker ${label.speaker_id}`\<close>: null and the empty string are falsy.\<close>

definition name_or_default :: "SpeakerLabel \<Rightarrow> js_string" where
  "name_or_default label =
     (case custom_name label of
        None \<Rightarrow> js ''Speaker '' @ speaker_id label
      | Some n \<Rightarrow> if n = [] then js ''Speaker '' @ speaker_id label else n)"

text \<open>
  \<open>speakerNames\<close> is a plain object: the map holds its own properties, and a read of a
  key it does not own finds the member of \<^verbatim>\<open>Object.prototype\<close> of that name, if there
  is one. Those members are functions or objects, never strings.
\<close>

datatype js_value = Str js_string | Inherited js_string

definition object_prototype_members :: "js_string list" where
  "object_prototype_members =
     [js ''constructor'', js ''__defineGetter__'', js ''__defineSetter__'',
      js ''hasOwnProperty'', js ''__lookupGetter__'', js ''__lookupSetter__'',
      js ''isPrototypeOf'', js ''propertyIsEnumerable'', js ''toString'', js ''valueOf'',
      js ''__proto__'', js ''toLocaleString'']"

text \<open>\<^verbatim>\<open>obj[key]\<close>; \<open>None\<close> is \<^verbatim>\<open>undefined\<close>.\<close>

definition js_get :: "(js_string \<rightharpoonup> js_string) \<Rightarrow> js_string \<Rightarrow> js_value option" where
  "js_get obj key =
     (case obj key of
        Some v \<Rightarrow> Some (Str v)
      | None \<Rightarrow> if key \<in> set object_prototype_members then Some (Inherited key) else None)"

text \<open>
  The effect on \<^verbatim>\<open>transcript?.speaker_labels\<close> (lines 51 to 59): after a render in
  which the array of labels is a new one, the map of names is rebuilt from it. The
  assignment \<^verbatim>\<open>names[key] = value\<close> creates an own property, except for the key
  \<^verbatim>\<open>__proto__\<close>, whose inherited setter ignores a string.
\<close>

definition names_of_labels :: "SpeakerLabel list \<Rightarrow> (js_string \<rightharpoonup> js_string)" where
  "names_of_labels labels =
     fold (\<lambda>label names.
             if speaker_id label = js ''__proto__'' then names
             else names(speaker_id label \<mapsto> name_or_default label))
       labels Map.empty"

definition speaker_names_effect :: "hook_state \<Rightarrow> hook_state" where
  "speaker_names_effect st =
     (case transcript st of
        None \<Rightarrow> st
      | Some t \<Rightarrow> st\<lparr>speakerNames := names_of_labels (speaker_labels t)\<rparr>)"

subsection \<open>loadTranscript\<close>

datatype load_outcome = Loaded Transcript | LoadFailed thrown

text \<open>\<open>loadTranscript\<close> up to its \<^verbatim>\<open>await\<close> (lines 63 to 65).\<close>

definition loadTranscript_begin :: "hook_state \<Rightarrow> hook_state" where
  "loadTranscript_begin st = st\<lparr>loading := True, error := None\<rparr>"

text \<open>The rest of it, run when \<^verbatim>\<open>getTranscript\<close> settles (lines 65 to 73).\<close>

definition loadTranscript_settle :: "load_outcome \<Rightarrow> hook_state \<Rightarrow> hook_state" where
  "loadTranscript_settle outcome st =
     (case outcome of
        Loaded result \<Rightarrow>
          st\<lparr>transcript := Some result, editHistory := [], historyIndex := - 1,
             loading := False\<rparr>
      | LoadFailed err \<Rightarrow>
          st\<lparr>error := Some (message_of err (js ''Failed to load transcript'')),
             loading := False\<rparr>)"

text \<open>
  A load that settles before anything else happens; a loaded transcript brings a new
  array of labels, so the render that follows runs the speaker-name effect.
\<close>

definition loadTranscript :: "load_outcome \<Rightarrow> hook_state \<Rightarrow> hook_state" where
  "loadTranscript outcome st =
     (let st1 = loadTranscript_settle outcome (loadTranscript_begin st)
      in case outcome of
           Loaded result \<Rightarrow> speaker_names_effect st1
         | LoadFailed err \<Rightarrow> st1)"

subsection \<open>updateSegmentText\<close>

text \<open>
  A callback of the hook reads two kinds of values: those its closure captured at the
  render that created it (\<open>transcript\<close>, \<open>historyIndex\<close>, \<open>editHistory\<close>), and those
  of the moment (the argument \<open>prev\<close> of a functional state update, the ref
  \<open>isUndoRedo\<close>). The model passes both: \<open>r\<close> is the state as it was at that render,
  \<open>st\<close> is the state the callback runs in. A callback invoked from the latest render has
  \<open>r = st\<close>.
\<close>

text \<open>The functional update of lines 108 to 116.\<close>

definition set_segment_text :: "js_string \<Rightarrow> js_string \<Rightarrow> Transcript \<Rightarrow> Transcript" where
  "set_segment_text sid txt prev =
     prev\<lparr>segments :=
       map (\<lambda>s. if seg_id s = sid then s\<lparr>seg_text := txt, is_edited := True\<rparr> else s)
         (segments prev)\<rparr>"

text \<open>The functional update of lines 123 to 131, in the \<^verbatim>\<open>catch\<close> block.\<close>

definition revert_segment_text :: "js_string \<Rightarrow> js_string \<Rightarrow> Transcript \<Rightarrow> Transcript" where
  "revert_segment_text sid txt prev =
     prev\<lparr>segments :=
       map (\<lambda>s. if seg_id s = sid then s\<lparr>seg_text := txt\<rparr> else s) (segments prev)\<rparr>"

text \<open>The functional update of lines 92 to 103; \<open>idx\<close> is the captured \<open>historyIndex\<close>.\<close>

definition push_history :: "int \<Rightarrow> EditHistoryItem \<Rightarrow> EditHistoryItem list \<Rightarrow> EditHistoryItem list" where
  "push_history idx historyItem prev =
     (let newHistory = js_slice0 prev (idx + 1) @ [historyItem]
      in if int (length newHistory) > MAX_HISTORY then tl newHistory else newHistory)"

text \<open>
  \<open>updateSegmentText\<close> up to its \<^verbatim>\<open>await\<close> (lines 77 to 120): the guards, the history
  entry unless \<open>isUndoRedo\<close> is set, the optimistic update, and the request. It returns
  the segment found when a request is now pending, \<open>None\<close> when it returned early.
\<close>

definition updateSegmentText_begin ::
  "hook_state \<Rightarrow> js_string \<Rightarrow> js_string \<Rightarrow> hook_state \<Rightarrow> hook_state \<times> Segment option"
where
  "updateSegmentText_begin r sid txt st =
     (case transcript r of
        None \<Rightarrow> (st, None)
      | Some t \<Rightarrow>
          (case find (\<lambda>s. seg_id s = sid) (segments t) of
             None \<Rightarrow> (st, None)
           | Some segment \<Rightarrow>
               if seg_text segment = txt then (st, None)
               else
                 let st1 =
                       (if \<not> isUndoRedo st then
                          let historyItem =
                                \<lparr>segmentId = sid, previousText = seg_text segment,
                                 newText = txt, timestamp = date_now st\<rparr>
                          in st\<lparr>editHistory := push_history (historyIndex r) historyItem (editHistory st),
                                historyIndex := min (historyIndex st + 1) (MAX_HISTORY - 1)\<rparr>
                        else st);
                     st2 = st1\<lparr>transcript := map_option (set_segment_text sid txt) (transcript st1)\<rparr>;
                     st3 = st2\<lparr>requests := requests st2 @ [PatchSegment sid txt]\<rparr>
                 in (st3, Some segment)))"

text \<open>
  The rest of \<open>updateSegmentText\<close>, run when the request settles (lines 121 to 133);
  \<open>segment\<close> is the segment captured before the \<^verbatim>\<open>await\<close>.
\<close>

definition updateSegmentText_settle ::
  "response \<Rightarrow> js_string \<Rightarrow> Segment \<Rightarrow> hook_state \<Rightarrow> hook_state"
where
  "updateSegmentText_settle resp sid segment st =
     (case resp of
        Resolved \<Rightarrow> st
      | Rejected err \<Rightarrow>
          st\<lparr>transcript := map_option (revert_segment_text sid (seg_text segment)) (transcript st),
             error := Some (message_of err (js ''Failed to save edit''))\<rparr>)"

text \<open>A request that settles before anything else happens.\<close>

definition settle_segment ::
  "response \<Rightarrow> js_string \<Rightarrow> hook_state \<times> Segment option \<Rightarrow> hook_state"
where
  "settle_segment resp sid p =
     (case snd p of
        None \<Rightarrow> fst p
      | Some segment \<Rightarrow> updateSegmentText_settle resp sid segment (fst p))"

definition updateSegmentText ::
  "hook_state \<Rightarrow> js_string \<Rightarrow> js_string \<Rightarrow> response \<Rightarrow> hook_state \<Rightarrow> hook_state"
where
  "updateSegmentText r sid txt resp st =
     settle_segment resp sid (updateSegmentText_begin r sid txt st)"

subsection \<open>undo and redo\<close>

text \<open>
  \<open>undo\<close> (lines 171 to 179) calls \<open>updateSegmentText\<close> without awaiting it: the part
  of it up to the \<^verbatim>\<open>await\<close> runs with the flag set, then the flag is cleared and the
  cursor moved; the request settles afterwards.
\<close>

definition undo_begin :: "hook_state \<Rightarrow> hook_state \<Rightarrow> (hook_state \<times> Segment option) \<times> js_string" where
  "undo_begin r st =
     (if historyIndex r < 0 then ((st, None), [])
      else case js_index (editHistory r) (historyIndex r) of
             None \<Rightarrow> ((st, None), [])
           | Some item \<Rightarrow>
               let st1 = st\<lparr>isUndoRedo := True\<rparr>;
                   p = updateSegmentText_begin r (segmentId item) (previousText item) st1;
                   st2 = (fst p)\<lparr>isUndoRedo := False\<rparr>;
                   st3 = st2\<lparr>historyIndex := historyIndex st2 - 1\<rparr>
               in ((st3, snd p), segmentId item))"

definition undo :: "hook_state \<Rightarrow> response \<Rightarrow> hook_state \<Rightarrow> hook_state" where
  "undo r resp st = (let (p, sid) = undo_begin r st in settle_segment resp sid p)"

text \<open>
  \<open>redo\<close> (lines 181 to 189). Line 184 reads the item, line 185 sets the flag, and
  line 186 reads \<^verbatim>\<open>item.segmentId\<close>: on an \<^verbatim>\<open>undefined\<close> item that throws a
  TypeError out of \<open>redo\<close>, and the flag stays set. A throw is \<open>Inl\<close>, with the state
  it leaves behind.
\<close>

datatype js_error = TypeError

definition redo_begin ::
  "hook_state \<Rightarrow> hook_state
     \<Rightarrow> js_error \<times> hook_state + ((hook_state \<times> Segment option) \<times> js_string)"
where
  "redo_begin r st =
     (if historyIndex r \<ge> int (length (editHistory r)) - 1 then Inr ((st, None), [])
      else case js_index (editHistory r) (historyIndex r + 1) of
             None \<Rightarrow> Inl (TypeError, st\<lparr>isUndoRedo := True\<rparr>)
           | Some item \<Rightarrow>
               let st1 = st\<lparr>isUndoRedo := True\<rparr>;
                   p = updateSegmentText_begin r (segmentId item) (newText item) st1;
                   st2 = (fst p)\<lparr>isUndoRedo := False\<rparr>;
                   st3 = st2\<lparr>historyIndex := historyIndex st2 + 1\<rparr>
               in Inr ((st3, snd p), segmentId item))"

definition redo ::
  "hook_state \<Rightarrow> response \<Rightarrow> hook_state \<Rightarrow> js_error \<times> hook_state + hook_state"
where
  "redo r resp st =
     (case redo_begin r st of
        Inl e \<Rightarrow> Inl e
      | Inr (p, sid) \<Rightarrow> Inr (settle_segment resp sid p))"

definition canUndo :: "hook_state \<Rightarrow> bool" where
  "canUndo r \<longleftrightarrow> historyIndex r \<ge> 0"

definition canRedo :: "hook_state \<Rightarrow> bool" where
  "canRedo r \<longleftrightarrow> historyIndex r < int (length (editHistory r)) - 1"

subsection \<open>renameSpeaker\<close>

text \<open>The functional update of lines 148 to 156.\<close>

definition set_custom_name :: "js_string \<Rightarrow> js_string \<Rightarrow> Transcript \<Rightarrow> Transcript" where
  "set_custom_name labelId name prev =
     prev\<lparr>speaker_labels :=
       map (\<lambda>l. if label_id l = labelId then l\<lparr>custom_name := Some name\<rparr> else l)
         (speaker_labels prev)\<rparr>"

text \<open>
  \<open>renameSpeaker\<close> up to its \<^verbatim>\<open>await\<close> (lines 137 to 160); it returns the label found
  when a request is now pending.
\<close>

definition renameSpeaker_begin ::
  "hook_state \<Rightarrow> js_string \<Rightarrow> js_string \<Rightarrow> hook_state \<Rightarrow> hook_state \<times> SpeakerLabel option"
where
  "renameSpeaker_begin r labelId name st =
     (case transcript r of
        None \<Rightarrow> (st, None)
      | Some t \<Rightarrow>
          (case find (\<lambda>l. label_id l = labelId) (speaker_labels t) of
             None \<Rightarrow> (st, None)
           | Some label \<Rightarrow>
               let st1 = st\<lparr>speakerNames := (speakerNames st)(speaker_id label \<mapsto> name)\<rparr>;
                   st2 = st1\<lparr>transcript := map_option (set_custom_name labelId name) (transcript st1)\<rparr>;
                   st3 = st2\<lparr>requests := requests st2 @ [PatchSpeakerLabel labelId name]\<rparr>
               in (st3, Some label)))"

text \<open>The \<^verbatim>\<open>catch\<close> block of \<open>renameSpeaker\<close> (lines 161 to 168).\<close>

definition renameSpeaker_settle :: "response \<Rightarrow> SpeakerLabel \<Rightarrow> hook_state \<Rightarrow> hook_state" where
  "renameSpeaker_settle resp label st =
     (case resp of
        Resolved \<Rightarrow> st
      | Rejected err \<Rightarrow>
          st\<lparr>speakerNames := (speakerNames st)(speaker_id label \<mapsto> name_or_default label),
             error := Some (message_of err (js ''Failed to rename speaker''))\<rparr>)"

text \<open>
  A rename whose request settles before anything else happens. The optimistic update
  replaces the array of labels, so the render that follows it runs the speaker-name
  effect; the response of the network arrives after that.
\<close>

definition renameSpeaker ::
  "hook_state \<Rightarrow> js_string \<Rightarrow> js_string \<Rightarrow> response \<Rightarrow> hook_state \<Rightarrow> hook_state"
where
  "renameSpeaker r labelId name resp st =
     (case renameSpeaker_begin r labelId name st of
        (st', None) \<Rightarrow> st'
      | (st', Some label) \<Rightarrow> renameSpeaker_settle resp label (speaker_names_effect st'))"

text \<open>
  \<^verbatim>\<open>speakerNames[speakerId] || `Speaker ${speakerId}`\<close> (line 197): an inherited
  member is truthy and is returned as it is.
\<close>

definition getSpeakerName :: "hook_state \<Rightarrow> js_string \<Rightarrow> js_value" where
  "getSpeakerName r speakerId =
     (case js_get (speakerNames r) speakerId of
        None \<Rightarrow> Str (js ''Speaker '' @ speakerId)
      | Some (Str n) \<Rightarrow> if n = [] then Str (js ''Speaker '' @ speakerId) else Str n
      | Some (Inherited m) \<Rightarrow> Inherited m)"

subsection \<open>Sequences of user actions\<close>

text \<open>
  The schedule in which the hook is used one action at a time: every callback is the
  one of the latest render (\<open>r = st\<close>), and its request settles, with the given
  response, before the next action. \<open>Wait\<close> lets the clock move. This is one of the
  schedules of the program, not all of them: the section on renders below has the
  others (two calls from one render, a callback kept by a timer, a response that
  arrives late).
\<close>

datatype action =
  Load load_outcome
| Edit js_string js_string response
| Rename js_string js_string response
| Undo response
| Redo response
| Wait int

fun step :: "action \<Rightarrow> hook_state \<Rightarrow> js_error \<times> hook_state + hook_state" where
  "step (Load outcome) st = Inr (loadTranscript outcome st)"
| "step (Edit sid txt resp) st = Inr (updateSegmentText st sid txt resp st)"
| "step (Rename labelId name resp) st = Inr (renameSpeaker st labelId name resp st)"
| "step (Undo resp) st = Inr (undo st resp st)"
| "step (Redo resp) st = redo st resp st"
| "step (Wait t) st = Inr (st\<lparr>date_now := t\<rparr>)"

fun run :: "action list \<Rightarrow> hook_state \<Rightarrow> js_error \<times> hook_state + hook_state" where
  "run [] st = Inr st"
| "run (a # as) st = (case step a st of Inl e \<Rightarrow> Inl e | Inr st' \<Rightarrow> run as st')"

text \<open>The text a segment shows: that of the first segment with the identifier.\<close>

definition text_of :: "hook_state \<Rightarrow> js_string \<Rightarrow> js_string option" where
  "text_of st sid =
     (case transcript st of
        None \<Rightarrow> None
      | Some t \<Rightarrow> map_option seg_text (find (\<lambda>s. seg_id s = sid) (segments t)))"

text \<open>
  What holds of the history between two user actions: the cursor is \<open>-1\<close> or the index
  of an entry, the log holds at most \<open>MAX_HISTORY\<close> entries, and the flag is clear.
\<close>

definition history_ok :: "hook_state \<Rightarrow> bool" where
  "history_ok st \<longleftrightarrow>
     - 1 \<le> historyIndex st \<and> historyIndex st < int (length (editHistory st))
     \<and> int (length (editHistory st)) \<le> MAX_HISTORY \<and> \<not> isUndoRedo st"


text \<open>
  The guards of \<open>updateSegmentText\<close> (lines 77 to 81) let the call through: a segment
  with the identifier exists and its text differs from the new one.
\<close>

definition passes_guards :: "hook_state \<Rightarrow> js_string \<Rightarrow> js_string \<Rightarrow> bool" where
  "passes_guards r sid txt \<longleftrightarrow> text_of r sid \<noteq> None \<and> text_of r sid \<noteq> Some txt"

text \<open>
  The state a sequence of actions ends in (the state left by the action that threw, if
  one did).
\<close>

definition after :: "action list \<Rightarrow> hook_state \<Rightarrow> hook_state" where
  "after as st = (case run as st of Inl e \<Rightarrow> snd e | Inr st' \<Rightarrow> st')"


subsection \<open>Renders, callbacks and pending requests\<close>

text \<open>
  The hook as the program runs it. React renders the component again after state
  changes, and every render creates the callbacks anew; a callback belongs to the render
  that created it. It can be invoked twice before the next render, or much later (the
  segment editor keeps \<^verbatim>\<open>onTextChange\<close> in a 500 ms debounce timer while the keyboard
  shortcuts call \<open>undo\<close> and \<open>redo\<close>). A request settles at any later moment.

  A \<open>system\<close> is the current state of the hook, the states at the renders so far, the
  requests awaiting their response, and whether the array \<open>speaker_labels\<close> has been
  replaced since the last render (the dependency of the speaker-name effect).
\<close>

datatype in_flight =
  Saving js_string Segment
| Renaming SpeakerLabel
| Loading

record system =
  current :: hook_state
  renders :: "hook_state list"
  awaiting :: "in_flight list"
  labels_replaced :: bool

definition initial_system :: system where
  "initial_system =
     \<lparr>current = initial_state, renders = [], awaiting = [], labels_replaced = False\<rparr>"

datatype call =
  Call_load
| Call_edit js_string js_string
| Call_rename js_string js_string
| Call_undo
| Call_redo

text \<open>
  \<open>Render\<close>: the component renders; the effect runs if its dependency changed. (The
  effect's own state update renders once more; it changes \<open>speakerNames\<close> only, which
  no callback modelled here captures, so the two renders are one.)
  \<open>Invoke n c\<close>: the callback \<open>c\<close> of render number \<open>n\<close> is called and runs up to its
  \<^verbatim>\<open>await\<close>. \<open>Responds k resp\<close>: the \<open>k\<close>-th pending request of \<open>updateSegment\<close> or
  \<open>updateSpeakerLabel\<close> settles. \<open>Load_responds k outcome\<close>: the \<open>k\<close>-th pending
  request, one of \<open>getTranscript\<close>, settles. \<open>Clock t\<close>: time passes.
\<close>

datatype event =
  Render
| Invoke nat call
| Responds nat response
| Load_responds nat load_outcome
| Clock int

definition render :: "system \<Rightarrow> system" where
  "render sys =
     (let st = (if labels_replaced sys then speaker_names_effect (current sys)
                else current sys)
      in sys\<lparr>current := st, renders := renders sys @ [st], labels_replaced := False\<rparr>)"

text \<open>The request a call has left pending, if it has sent one.\<close>

definition saving :: "js_string \<Rightarrow> Segment option \<Rightarrow> in_flight list" where
  "saving sid p = (case p of None \<Rightarrow> [] | Some segment \<Rightarrow> [Saving sid segment])"

definition renaming :: "SpeakerLabel option \<Rightarrow> in_flight list" where
  "renaming p = (case p of None \<Rightarrow> [] | Some label \<Rightarrow> [Renaming label])"

definition invoke :: "hook_state \<Rightarrow> call \<Rightarrow> system \<Rightarrow> system" where
  "invoke r c sys =
     (case c of
        Call_load \<Rightarrow>
          sys\<lparr>current := loadTranscript_begin (current sys),
              awaiting := awaiting sys @ [Loading]\<rparr>
      | Call_edit sid txt \<Rightarrow>
          (let p = updateSegmentText_begin r sid txt (current sys)
           in sys\<lparr>current := fst p, awaiting := awaiting sys @ saving sid (snd p)\<rparr>)
      | Call_rename labelId name \<Rightarrow>
          (let p = renameSpeaker_begin r labelId name (current sys)
           in sys\<lparr>current := fst p,
                  awaiting := awaiting sys @ renaming (snd p),
                  labels_replaced :=
                    labels_replaced sys \<or> (snd p \<noteq> None \<and> transcript (current sys) \<noteq> None)\<rparr>)
      | Call_undo \<Rightarrow>
          (let (p, sid) = undo_begin r (current sys)
           in sys\<lparr>current := fst p, awaiting := awaiting sys @ saving sid (snd p)\<rparr>)
      | Call_redo \<Rightarrow>
          (case redo_begin r (current sys) of
             Inl (e, st) \<Rightarrow> sys\<lparr>current := st\<rparr>
           | Inr (p, sid) \<Rightarrow>
               sys\<lparr>current := fst p, awaiting := awaiting sys @ saving sid (snd p)\<rparr>))"

definition without :: "nat \<Rightarrow> 'a list \<Rightarrow> 'a list" where
  "without k xs = take k xs @ drop (Suc k) xs"

definition responds :: "nat \<Rightarrow> response \<Rightarrow> system \<Rightarrow> system" where
  "responds k resp sys =
     (if k < length (awaiting sys) then
        (case awaiting sys ! k of
           Saving sid segment \<Rightarrow>
             sys\<lparr>current := updateSegmentText_settle resp sid segment (current sys),
                 awaiting := without k (awaiting sys)\<rparr>
         | Renaming label \<Rightarrow>
             sys\<lparr>current := renameSpeaker_settle resp label (current sys),
                 awaiting := without k (awaiting sys)\<rparr>
         | Loading \<Rightarrow> sys)
      else sys)"

definition load_responds :: "nat \<Rightarrow> load_outcome \<Rightarrow> system \<Rightarrow> system" where
  "load_responds k outcome sys =
     (if k < length (awaiting sys) \<and> awaiting sys ! k = Loading then
        sys\<lparr>current := loadTranscript_settle outcome (current sys),
            awaiting := without k (awaiting sys),
            labels_replaced :=
              (case outcome of Loaded result \<Rightarrow> True | LoadFailed err \<Rightarrow> labels_replaced sys)\<rparr>
      else sys)"

text \<open>An event that cannot happen (no such render, no such pending request) changes nothing.\<close>

fun fire :: "event \<Rightarrow> system \<Rightarrow> system" where
  "fire Render sys = render sys"
| "fire (Invoke n c) sys =
     (if n < length (renders sys) then invoke (renders sys ! n) c sys else sys)"
| "fire (Responds k resp) sys = responds k resp sys"
| "fire (Load_responds k outcome) sys = load_responds k outcome sys"
| "fire (Clock t) sys = sys\<lparr>current := (current sys)\<lparr>date_now := t\<rparr>\<rparr>"

fun trace :: "event list \<Rightarrow> system \<Rightarrow> system" where
  "trace [] sys = sys"
| "trace (e # es) sys = trace es (fire e sys)"



text \<open>Nothing is pending and no effect is due.\<close>

definition settled :: "system \<Rightarrow> bool" where
  "settled sys \<longleftrightarrow> awaiting sys = [] \<and> \<not> labels_replaced sys"



subsection \<open>A small transcript\<close>

text \<open>Two segments and two speakers, one of them named; used to run the hook on.\<close>

definition example_transcript :: Transcript where
  "example_transcript =
     \<lparr>segments =
        [\<lparr>seg_id = js ''s1'', seg_text = js ''hello'', original_text = None,
          seg_speaker_id = js ''A'', is_edited = False\<rparr>,
         \<lparr>seg_id = js ''s2'', seg_text = js ''world'', original_text = None,
          seg_speaker_id = js ''B'', is_edited = False\<rparr>],
      speaker_labels =
        [\<lparr>label_id = js ''L1'', speaker_id = js ''A'', custom_name = None\<rparr>,
         \<lparr>label_id = js ''L2'', speaker_id = js ''B'', custom_name = Some (js ''Bea'')\<rparr>]\<rparr>"

definition example_state :: hook_state where
  "example_state = loadTranscript (Loaded example_transcript) initial_state"

text \<open>The transcript loaded: mount, \<open>loadTranscript\<close>, its response, the render after it.\<close>

definition load_events :: "event list" where
  "load_events =
     [Render, Invoke 0 Call_load, Load_responds 0 (Loaded example_transcript), Render]"

text \<open>
  Then, from the render after the load (number 1), the edit A of segment s1 is recorded
  and saved, and the component renders (number 2); from that render the edit B of
  segment s2, and the component renders (number 3).
\<close>

definition record_A :: "event list" where
  "record_A = [Invoke 1 (Call_edit (js ''s1'') (js ''hi'')), Responds 0 Resolved, Render]"

definition record_B :: "event list" where
  "record_B = [Invoke 2 (Call_edit (js ''s2'') (js ''there'')), Responds 0 Resolved, Render]"



text \<open>One edit recorded; then that edit undone.\<close>

definition edited_state :: hook_state where
  "edited_state = updateSegmentText example_state (js ''s1'') (js ''hi'') Resolved example_state"

definition undone_state :: hook_state where
  "undone_state = undo edited_state Resolved edited_state"

text \<open>Two edits recorded, the second one undone: the cursor is on the first entry.\<close>

definition branch_state :: hook_state where
  "branch_state =
     after [Edit (js ''s1'') (js ''hi'') Resolved, Edit (js ''s2'') (js ''there'') Resolved,
            Undo Resolved] example_state"


section \<open>The status poll loop (useAudioUpload, transcribe)\<close>

datatype UploadState = idle | uploading | uploaded | transcribing | completed | error_state

datatype status_value = status_pending | status_processing | status_completed | status_failed

record TranscriptionStatus =
  status :: status_value
  progress :: "int option"
  error_message :: "js_string option"

text \<open>
  The state of the upload hook that \<open>transcribe\<close> touches, together with the interval
  timer and the counters the properties speak about: whether the interval created by
  \<^verbatim>\<open>setInterval\<close> is still scheduled, how many interval callbacks are suspended at
  their \<^verbatim>\<open>await\<close>, how many status requests have been issued, and how many times
  \<^verbatim>\<open>clearInterval(pollInterval)\<close> has been called.
\<close>

record poll_state =
  upload_state :: UploadState
  upload_progress :: int
  upload_error :: "js_string option"
  interval_active :: bool
  in_flight :: nat
  status_requests :: nat
  clear_calls :: nat

text \<open>
  \<^verbatim>\<open>clearInterval(pollInterval)\<close>: the interval is no longer scheduled; on an interval
  already cleared the call changes nothing else.
\<close>

definition clearInterval :: "poll_state \<Rightarrow> poll_state" where
  "clearInterval st = st\<lparr>interval_active := False, clear_calls := clear_calls st + 1\<rparr>"

text \<open>
  \<open>transcribe\<close> up to the creation of the interval (lines 53 to 68 and 90 to 93):
  without a transcript identifier (null, or the empty string, which is falsy too) it
  only sets an error; otherwise it awaits
  \<^verbatim>\<open>startTranscription\<close> and, when that resolves, creates the interval.
\<close>

definition transcribe :: "js_string option \<Rightarrow> response \<Rightarrow> poll_state \<Rightarrow> poll_state" where
  "transcribe transcriptId started st =
     (case transcriptId of
        None \<Rightarrow> st\<lparr>upload_error := Some (js ''No file uploaded'')\<rparr>
      | Some tid \<Rightarrow>
          if tid = [] then st\<lparr>upload_error := Some (js ''No file uploaded'')\<rparr>
          else
          (let st1 = st\<lparr>upload_state := transcribing, upload_progress := 0,
                         upload_error := None\<rparr>
           in case started of
                Resolved \<Rightarrow> st1\<lparr>interval_active := True\<rparr>
              | Rejected err \<Rightarrow>
                  st1\<lparr>upload_state := error_state,
                      upload_error :=
                        Some (message_of err (js ''Failed to start transcription''))\<rparr>))"

text \<open>The hook after a successful upload, with no interval yet.\<close>

definition uploaded_state :: poll_state where
  "uploaded_state =
     \<lparr>upload_state = uploaded, upload_progress = 100, upload_error = None,
      interval_active = False, in_flight = 0, status_requests = 0, clear_calls = 0\<rparr>"

text \<open>The state in which \<open>transcribe\<close> has just created the interval.\<close>

definition polling_started :: poll_state where
  "polling_started = transcribe (Some (js ''t1'')) Resolved uploaded_state"

datatype poll_outcome = Answered TranscriptionStatus | Threw thrown

text \<open>
  The interval callback up to its \<^verbatim>\<open>await\<close> (line 70): it issues a status request. A
  cleared interval does not fire.
\<close>

definition interval_fires :: "poll_state \<Rightarrow> poll_state" where
  "interval_fires st =
     (if interval_active st
      then st\<lparr>status_requests := status_requests st + 1, in_flight := in_flight st + 1\<rparr>
      else st)"

text \<open>
  The rest of the callback, run when its status request settles (lines 70 to 87). With
  no callback suspended there is nothing to settle.
\<close>

definition poll_settles :: "poll_outcome \<Rightarrow> poll_state \<Rightarrow> poll_state" where
  "poll_settles outcome st =
     (if in_flight st = 0 then st
      else
        let st0 = st\<lparr>in_flight := in_flight st - 1\<rparr>
        in case outcome of
             Answered s \<Rightarrow>
               let st1 = st0\<lparr>upload_progress := (case progress s of None \<Rightarrow> 0 | Some n \<Rightarrow> n)\<rparr>
               in if status s = status_completed then
                    (clearInterval st1)\<lparr>upload_state := completed, upload_progress := 100\<rparr>
                  else if status s = status_failed then
                    (clearInterval st1)
                      \<lparr>upload_state := error_state,
                       upload_error :=
                         Some (case error_message s of
                                 None \<Rightarrow> js ''Transcription failed''
                               | Some m \<Rightarrow> if m = [] then js ''Transcription failed'' else m)\<rparr>
                  else st1
           | Threw err \<Rightarrow>
               (clearInterval st0)
                 \<lparr>upload_state := error_state,
                  upload_error := Some (message_of err (js ''Status check failed''))\<rparr>)"

datatype poll_event = Interval_fires | Poll_settles poll_outcome

fun poll_step :: "poll_event \<Rightarrow> poll_state \<Rightarrow> poll_state" where
  "poll_step Interval_fires st = interval_fires st"
| "poll_step (Poll_settles outcome) st = poll_settles outcome st"

fun poll_run :: "poll_event list \<Rightarrow> poll_state \<Rightarrow> poll_state" where
  "poll_run [] st = st"
| "poll_run (e # es) st = poll_run es (poll_step e st)"

text \<open>A poll that ends the loop: a terminal status, or a request that threw.\<close>

definition terminal :: "poll_outcome \<Rightarrow> bool" where
  "terminal outcome =
     (case outcome of
        Answered s \<Rightarrow> status s = status_completed \<or> status s = status_failed
      | Threw err \<Rightarrow> True)"


section \<open>Properties of the word-level diff\<close>

lemma split_from_not_Nil: "split_from w s \<noteq> []"
  by (induction w s rule: split_from.induct) auto

lemma split_from_no_space:
  "\<forall>c\<in>set s. \<not> isWhiteSpace c \<Longrightarrow> split_from w s = [w @ s]"
  by (induction s arbitrary: w) auto

lemma trim_all_space:
  assumes "\<forall>c\<in>set s. isWhiteSpace c"
  shows "trim s = []"
  using assms by (auto simp: trim_def dest: set_dropWhileD)

lemma trim_no_space: "\<forall>c\<in>set s. \<not> isWhiteSpace c \<Longrightarrow> trim s = s"
proof (cases s)
  case Nil
  then show ?thesis by (simp add: trim_def)
next
  case (Cons c cs)
  assume ns: "\<forall>c\<in>set s. \<not> isWhiteSpace c"
  then have "dropWhile isWhiteSpace s = s"
    using Cons by simp
  moreover have "dropWhile isWhiteSpace (rev s) = rev s"
    using ns by (cases "rev s") (auto simp: dropWhile_eq_self_iff)
  ultimately show ?thesis by (simp add: trim_def)
qed

lemma words_all_space: "\<forall>c\<in>set s. isWhiteSpace c \<Longrightarrow> split_ws (trim s) = [[]]"
  by (simp add: trim_all_space split_ws_def)

lemma words_single: "\<forall>c\<in>set w. \<not> isWhiteSpace c \<Longrightarrow> split_ws (trim w) = [w]"
  by (simp add: trim_no_space split_ws_def split_from_no_space)

lemma split_from_no_space_words:
  "list_all (\<lambda>c. \<not> isWhiteSpace c) w \<Longrightarrow>
   list_all (list_all (\<lambda>c. \<not> isWhiteSpace c)) (split_from w s)"
  by (induction w s rule: split_from.induct) auto

lemma words_no_space: "list_all (list_all (\<lambda>c. \<not> isWhiteSpace c)) (split_ws s)"
  by (simp add: split_ws_def split_from_no_space_words)

lemma words_not_Nil: "split_ws (trim s) \<noteq> []"
  by (simp add: split_ws_def split_from_not_Nil)

lemma drop_as_Cons: "i < length xs \<Longrightarrow> drop i xs = xs ! i # drop (Suc i) xs"
  by (simp add: Cons_nth_drop_Suc)

lemma diff_loop_spec_walk:
  "diff_loop ow ew i j result = result @ spec_walk (drop i ow) (drop j ew)"
proof (induction ow ew i j result rule: diff_loop.induct)
  case (1 ow ew i j result)
  show ?case
  proof (cases "i < length ow")
    case iless: True
    show ?thesis
    proof (cases "j < length ew")
      case jless: True
      have next_o: "drop (Suc i) ow \<noteq> [] \<and> hd (drop (Suc i) ow) = ew ! j
                    \<longleftrightarrow> Suc i < length ow \<and> ow ! Suc i = ew ! j"
        by (auto simp: hd_drop_conv_nth)
      have next_e: "drop (Suc j) ew \<noteq> [] \<and> hd (drop (Suc j) ew) = ow ! i
                    \<longleftrightarrow> Suc j < length ew \<and> ew ! Suc j = ow ! i"
        by (auto simp: hd_drop_conv_nth)
      show ?thesis
      proof (cases "ow ! i = ew ! j")
        case True
        then show ?thesis
          using iless jless "1.IH"(3)
          by (subst diff_loop.simps) (simp add: drop_as_Cons [of i] drop_as_Cons [of j])
      next
        case neq: False
        show ?thesis
        proof (cases "Suc i < length ow \<and> ow ! Suc i = ew ! j")
          case True
          then show ?thesis
            using iless jless neq next_o "1.IH"(4) [OF _ _ _ neq refl refl]
            by (subst diff_loop.simps)
               (simp add: drop_as_Cons [of i ow] drop_as_Cons [of j ew] del: drop_Suc_Cons)
        next
          case no_o: False
          show ?thesis
          proof (cases "Suc j < length ew \<and> ew ! Suc j = ow ! i")
            case True
            then show ?thesis
              using iless jless neq no_o next_o next_e "1.IH"(5) [OF _ _ _ neq refl refl]
              by (subst diff_loop.simps)
                 (auto simp add: drop_as_Cons [of i ow] drop_as_Cons [of j ew] Let_def)
          next
            case no_e: False
            then show ?thesis
              using iless jless neq no_o next_o next_e "1.IH"(6) [OF _ _ _ neq refl refl]
              by (subst diff_loop.simps)
                 (auto simp add: drop_as_Cons [of i ow] drop_as_Cons [of j ew] Let_def)
          qed
        qed
      qed
    next
      case False
      then show ?thesis
        using iless "1.IH"(2)
        by (subst diff_loop.simps) (simp add: drop_as_Cons [of i])
    qed
  next
    case ige: False
    show ?thesis
    proof (cases "j < length ew")
      case True
      then show ?thesis
        using ige "1.IH"(1)
        by (subst diff_loop.simps) (simp add: drop_as_Cons [of j])
    next
      case False
      then show ?thesis
        using ige by (subst diff_loop.simps) simp
    qed
  qed
qed

lemma computeWordDiff_spec_walk:
  "computeWordDiff original edited
     = spec_walk (split_ws (trim original)) (split_ws (trim edited))"
  by (simp add: computeWordDiff_def diff_loop_spec_walk)

lemma spec_walk_not_Nil: "xs \<noteq> [] \<Longrightarrow> spec_walk xs ys \<noteq> []"
  by (cases xs; cases ys) auto


text \<open>
  Claim C7. For every pair of original and edited strings, \<open>computeWordDiff\<close> splits
  both (trimmed) strings on white space and walks the two word sequences with the
  single-lookahead rule: its result is the walk worded by the specification
  (\<open>spec_walk\<close>) on the two word sequences. In particular the diff of
  "the quick fox" against "the quick brown fox" is unchanged "the", unchanged "quick",
  added "brown", unchanged "fox".
\<close>

theorem computeWordDiff_single_lookahead:
  "computeWordDiff original edited
     = spec_walk (split_ws (trim original)) (split_ws (trim edited))
   \<and> computeWordDiff (js ''the quick fox'') (js ''the quick brown fox'')
     = [\<lparr>part_type = unchanged, part_text = js ''the''\<rparr>,
        \<lparr>part_type = unchanged, part_text = js ''quick''\<rparr>,
        \<lparr>part_type = added, part_text = js ''brown''\<rparr>,
        \<lparr>part_type = unchanged, part_text = js ''fox''\<rparr>]"
proof
  show "computeWordDiff original edited
          = spec_walk (split_ws (trim original)) (split_ws (trim edited))"
    by (rule computeWordDiff_spec_walk)
next
  have ow: "split_ws (trim (js ''the quick fox'')) = [js ''the'', js ''quick'', js ''fox'']"
    by (simp add: split_ws_def trim_def js_def isWhiteSpace_def)
  have ew: "split_ws (trim (js ''the quick brown fox''))
              = [js ''the'', js ''quick'', js ''brown'', js ''fox'']"
    by (simp add: split_ws_def trim_def js_def isWhiteSpace_def)
  show "computeWordDiff (js ''the quick fox'') (js ''the quick brown fox'')
     = [\<lparr>part_type = unchanged, part_text = js ''the''\<rparr>,
        \<lparr>part_type = unchanged, part_text = js ''quick''\<rparr>,
        \<lparr>part_type = added, part_text = js ''brown''\<rparr>,
        \<lparr>part_type = unchanged, part_text = js ''fox''\<rparr>]"
    unfolding computeWordDiff_def Let_def ow ew
    by (simp add: diff_loop.simps js_def)
qed

text \<open>
  Claim C10. For every pair of input strings \<open>computeWordDiff\<close> returns a non-empty list
  of parts, because an empty or white-space-only string is split into the one-element
  word list holding the empty string. In particular, when the original is empty (or
  all white space) and the edited string is one non-empty word, the result is a
  \<open>removed\<close> part with the empty text followed by the \<open>added\<close> word.
\<close>

theorem computeWordDiff_never_empty:
  "computeWordDiff original edited \<noteq> []
   \<and> ((\<forall>c\<in>set s. isWhiteSpace c) \<longrightarrow> split_ws (trim s) = [[]])
   \<and> ((\<forall>c\<in>set s. isWhiteSpace c) \<and> w \<noteq> [] \<and> (\<forall>c\<in>set w. \<not> isWhiteSpace c) \<longrightarrow>
        computeWordDiff s w
          = [\<lparr>part_type = removed, part_text = []\<rparr>, \<lparr>part_type = added, part_text = w\<rparr>])"
proof (intro conjI impI)
  show "computeWordDiff original edited \<noteq> []"
    by (simp add: computeWordDiff_spec_walk spec_walk_not_Nil words_not_Nil)
next
  assume "\<forall>c\<in>set s. isWhiteSpace c"
  then show "split_ws (trim s) = [[]]"
    by (rule words_all_space)
next
  assume h: "(\<forall>c\<in>set s. isWhiteSpace c) \<and> w \<noteq> [] \<and> (\<forall>c\<in>set w. \<not> isWhiteSpace c)"
  then have "split_ws (trim s) = [[]]" and "split_ws (trim w) = [w]"
    by (simp_all add: words_all_space words_single)
  then show "computeWordDiff s w
          = [\<lparr>part_type = removed, part_text = []\<rparr>, \<lparr>part_type = added, part_text = w\<rparr>]"
    using h by (auto simp add: computeWordDiff_spec_walk)
qed

theorem computeWordDiff_never_empty_witness:
  "computeWordDiff [] (js ''hello'')
     = [\<lparr>part_type = removed, part_text = []\<rparr>,
        \<lparr>part_type = added, part_text = js ''hello''\<rparr>]
   \<and> split_ws (trim (js ''  '')) = [[]]
   \<and> computeWordDiff (js ''  '') (js '' '') \<noteq> []"
  using computeWordDiff_never_empty [of "js ''  ''" "js '' ''" "[]" "js ''hello''"]
        computeWordDiff_never_empty [of "[]" "[]" "js ''  ''" "[]"]
  by (simp add: js_def isWhiteSpace_def)


section \<open>Properties of the transcript hook\<close>


subsection \<open>What one call changes\<close>





lemma begin_skip:
  "\<not> passes_guards r sid txt \<Longrightarrow> updateSegmentText_begin r sid txt st = (st, None)"
  by (auto simp: passes_guards_def updateSegmentText_begin_def text_of_def split: option.splits)

lemma begin_apply:
  assumes "passes_guards r sid txt"
  shows "\<exists>segment. snd (updateSegmentText_begin r sid txt st) = Some segment
            \<and> text_of r sid = Some (seg_text segment)"
    and "transcript (fst (updateSegmentText_begin r sid txt st))
           = map_option (set_segment_text sid txt) (transcript st)"
    and "requests (fst (updateSegmentText_begin r sid txt st))
           = requests st @ [PatchSegment sid txt]"
    and "isUndoRedo (fst (updateSegmentText_begin r sid txt st)) = isUndoRedo st"
    and "error (fst (updateSegmentText_begin r sid txt st)) = error st"
    and "editHistory (fst (updateSegmentText_begin r sid txt st))
           = (if isUndoRedo st then editHistory st
              else push_history (historyIndex r)
                     \<lparr>segmentId = sid, previousText = the (text_of r sid), newText = txt,
                      timestamp = date_now st\<rparr> (editHistory st))"
    and "historyIndex (fst (updateSegmentText_begin r sid txt st))
           = (if isUndoRedo st then historyIndex st
              else min (historyIndex st + 1) (MAX_HISTORY - 1))"
  using assms
  by (auto simp: passes_guards_def updateSegmentText_begin_def text_of_def Let_def
           split: option.splits)

lemma settle_history:
  "editHistory (settle_segment resp sid p) = editHistory (fst p)"
  "historyIndex (settle_segment resp sid p) = historyIndex (fst p)"
  "isUndoRedo (settle_segment resp sid p) = isUndoRedo (fst p)"
  "requests (settle_segment resp sid p) = requests (fst p)"
  by (auto simp: settle_segment_def updateSegmentText_settle_def
           split: option.splits response.splits)

lemma begin_suppressed:
  "isUndoRedo st \<Longrightarrow>
     editHistory (fst (updateSegmentText_begin r sid txt st)) = editHistory st
     \<and> historyIndex (fst (updateSegmentText_begin r sid txt st)) = historyIndex st"
  by (cases "passes_guards r sid txt") (simp_all add: begin_skip begin_apply)

lemma undo_begin_history:
  "editHistory (fst (fst (undo_begin r st))) = editHistory st"
  "historyIndex (fst (fst (undo_begin r st)))
     = (if js_index (editHistory r) (historyIndex r) \<noteq> None then historyIndex st - 1
        else historyIndex st)"
  "isUndoRedo (fst (fst (undo_begin r st)))
     = (if js_index (editHistory r) (historyIndex r) \<noteq> None then False else isUndoRedo st)"
  by (auto simp: undo_begin_def Let_def begin_suppressed js_index_def split: option.splits)

lemma redo_begin_history:
  assumes "redo_begin r st = Inr (p, sid)"
  shows "editHistory (fst p) = editHistory st"
    and "historyIndex (fst p) = (if canRedo r then historyIndex st + 1 else historyIndex st)"
    and "isUndoRedo (fst p) = (if canRedo r then False else isUndoRedo st)"
  using assms
  by (auto simp: redo_begin_def canRedo_def Let_def begin_suppressed
           split: option.splits if_splits)

lemma redo_begin_total:
  "- 1 \<le> historyIndex r \<Longrightarrow> \<exists>x. redo_begin r st = Inr x"
  by (auto simp: redo_begin_def js_index_def Let_def split: option.splits)



text \<open>
  Claim C1. The replay call that \<open>undo\<close> and \<open>redo\<close> make to \<open>updateSegmentText\<close>
  runs with the flag set and records nothing: after \<open>undo\<close> the history log is the same
  and the cursor is one less (both unchanged when \<open>undo\<close> returns early); after \<open>redo\<close>
  the log is the same and the cursor is one more (both unchanged when nothing can be
  redone). With a cursor of at least \<open>-1\<close>, \<open>redo\<close> does not throw.
\<close>

theorem undo_redo_keep_history:
  "(isUndoRedo st \<longrightarrow>
      editHistory (fst (updateSegmentText_begin r sid txt st)) = editHistory st
      \<and> historyIndex (fst (updateSegmentText_begin r sid txt st)) = historyIndex st)
   \<and> editHistory (undo r resp st) = editHistory st
   \<and> historyIndex (undo r resp st)
       = (if js_index (editHistory r) (historyIndex r) \<noteq> None then historyIndex st - 1
          else historyIndex st)
   \<and> (\<forall>st'. redo r resp st = Inr st' \<longrightarrow>
         editHistory st' = editHistory st
         \<and> historyIndex st' = (if canRedo r then historyIndex st + 1 else historyIndex st))
   \<and> (- 1 \<le> historyIndex r \<longrightarrow> (\<exists>st'. redo r resp st = Inr st'))"
proof (intro conjI allI impI)
  assume "isUndoRedo st"
  then show "editHistory (fst (updateSegmentText_begin r sid txt st)) = editHistory st"
    and "historyIndex (fst (updateSegmentText_begin r sid txt st)) = historyIndex st"
    by (simp_all add: begin_suppressed)
next
  show "editHistory (undo r resp st) = editHistory st"
    by (simp add: undo_def split_beta settle_history undo_begin_history)
next
  show "historyIndex (undo r resp st)
       = (if js_index (editHistory r) (historyIndex r) \<noteq> None then historyIndex st - 1
          else historyIndex st)"
    by (simp add: undo_def split_beta settle_history undo_begin_history)
next
  fix st'
  assume "redo r resp st = Inr st'"
  then obtain p s where b: "redo_begin r st = Inr (p, s)" and st': "st' = settle_segment resp s p"
    by (auto simp: redo_def split: sum.splits)
  show "editHistory st' = editHistory st"
    and "historyIndex st' = (if canRedo r then historyIndex st + 1 else historyIndex st)"
    by (simp_all add: st' settle_history redo_begin_history [OF b])
next
  assume "- 1 \<le> historyIndex r"
  then obtain x where "redo_begin r st = Inr x"
    using redo_begin_total by blast
  then show "\<exists>st'. redo r resp st = Inr st'"
    by (simp add: redo_def split: prod.splits)
qed


lemma revert_after_set:
  "revert_segment_text sid old (set_segment_text sid txt t)
     = t\<lparr>segments :=
          map (\<lambda>s. if seg_id s = sid then s\<lparr>seg_text := old, is_edited := True\<rparr> else s)
            (segments t)\<rparr>"
  by (simp add: revert_segment_text_def set_segment_text_def comp_def if_distrib cong: if_cong)

lemma find_reverted:
  "find (\<lambda>s. seg_id s = sid)
     (map (\<lambda>s. if seg_id s = sid then s\<lparr>seg_text := old, is_edited := True\<rparr> else s) xs)
   = map_option (\<lambda>s. s\<lparr>seg_text := old, is_edited := True\<rparr>) (find (\<lambda>s. seg_id s = sid) xs)"
  by (induction xs) auto

lemma find_unique:
  "distinct (map seg_id xs) \<Longrightarrow> find (\<lambda>s. seg_id s = sid) xs = Some segment \<Longrightarrow>
   s \<in> set xs \<Longrightarrow> seg_id s = sid \<Longrightarrow> s = segment"
  by (induction xs) (auto split: if_splits)

lemma failed_edit_state:
  assumes "transcript st = Some t"
    and "find (\<lambda>s. seg_id s = sid) (segments t) = Some segment"
    and "seg_text segment \<noteq> txt"
  shows "transcript (updateSegmentText st sid txt (Rejected err) st)
           = Some (t\<lparr>segments :=
                map (\<lambda>s. if seg_id s = sid
                          then s\<lparr>seg_text := seg_text segment, is_edited := True\<rparr> else s)
                  (segments t)\<rparr>)"
    and "error (updateSegmentText st sid txt (Rejected err) st)
           = Some (message_of err (js ''Failed to save edit''))"
  using assms
  by (simp_all add: updateSegmentText_def updateSegmentText_begin_def settle_segment_def
        updateSegmentText_settle_def Let_def revert_after_set)

text \<open>
  A failing call made by the callback of the latest render does revert: the text of the
  segment is back at its value before the call and an error message is set, while
  \<open>is_edited\<close> stays true; segments with another identifier, and the rest of the
  transcript, are unchanged. With identifiers that are distinct, the list of segments
  is the old one with \<open>is_edited\<close> set on that one segment. (A failing call made by
  the callback of an older render writes the text of its own render; it is evaluated in
  the last section on the hook.)
\<close>

theorem updateSegmentText_failure_reverts:
  assumes "transcript st = Some t"
    and "find (\<lambda>s. seg_id s = sid) (segments t) = Some segment"
    and "seg_text segment \<noteq> txt"
  shows "\<exists>t'. transcript (updateSegmentText st sid txt (Rejected err) st) = Some t'
           \<and> find (\<lambda>s. seg_id s = sid) (segments t') = Some (segment\<lparr>is_edited := True\<rparr>)
           \<and> text_of (updateSegmentText st sid txt (Rejected err) st) sid = text_of st sid
           \<and> length (segments t') = length (segments t)
           \<and> (\<forall>i < length (segments t).
                 seg_id (segments t ! i) \<noteq> sid \<longrightarrow> segments t' ! i = segments t ! i)
           \<and> (distinct (map seg_id (segments t)) \<longrightarrow>
                 segments t'
                   = map (\<lambda>s. if seg_id s = sid then s\<lparr>is_edited := True\<rparr> else s) (segments t))
           \<and> speaker_labels t' = speaker_labels t
           \<and> error (updateSegmentText st sid txt (Rejected err) st)
               = Some (message_of err (js ''Failed to save edit''))"
proof -
  let ?f = "\<lambda>s. if seg_id s = sid
                 then s\<lparr>seg_text := seg_text segment, is_edited := True\<rparr> else s"
  let ?t' = "t\<lparr>segments := map ?f (segments t)\<rparr>"
  let ?st' = "updateSegmentText st sid txt (Rejected err) st"
  have tr: "transcript ?st' = Some ?t'"
    and er: "error ?st' = Some (message_of err (js ''Failed to save edit''))"
    using failed_edit_state [OF assms] by simp_all
  have found: "find (\<lambda>s. seg_id s = sid) (segments ?t') = Some (segment\<lparr>is_edited := True\<rparr>)"
    using assms(2) by (simp add: find_reverted)
  have same: "text_of ?st' sid = text_of st sid"
    using tr found assms(1,2) by (simp add: text_of_def)
  have others: "\<forall>i < length (segments t).
                  seg_id (segments t ! i) \<noteq> sid \<longrightarrow> segments ?t' ! i = segments t ! i"
    by simp
  have dist: "distinct (map seg_id (segments t)) \<longrightarrow>
                segments ?t'
                  = map (\<lambda>s. if seg_id s = sid then s\<lparr>is_edited := True\<rparr> else s) (segments t)"
  proof
    assume d: "distinct (map seg_id (segments t))"
    have "?f s = (if seg_id s = sid then s\<lparr>is_edited := True\<rparr> else s)"
      if "s \<in> set (segments t)" for s
      using find_unique [OF d assms(2) that] by auto
    then show "segments ?t'
                 = map (\<lambda>s. if seg_id s = sid then s\<lparr>is_edited := True\<rparr> else s) (segments t)"
      by simp
  qed
  show ?thesis
    using tr er found same others dist by simp
qed


subsection \<open>The history log\<close>

lemma push_history_ok:
  assumes "- 1 \<le> idx" and "idx < int (length h)" and "int (length h) \<le> MAX_HISTORY"
  shows "push_history idx item h
           = (if idx + 1 < MAX_HISTORY then take (nat (idx + 1)) h @ [item] else tl h @ [item])"
proof (cases "idx + 1 < MAX_HISTORY")
  case True
  then show ?thesis
    using assms by (simp add: push_history_def js_slice0_def Let_def MAX_HISTORY_def)
next
  case False
  then have "nat (idx + 1) = length h" and "h \<noteq> []"
    using assms by (auto simp: MAX_HISTORY_def)
  then show ?thesis
    using assms False by (simp add: push_history_def js_slice0_def Let_def MAX_HISTORY_def)
qed












lemma redo_at_end: "\<not> canRedo r \<Longrightarrow> redo r resp st = Inr st"
  by (simp add: redo_def redo_begin_def canRedo_def settle_segment_def)

lemma edit_history:
  assumes "history_ok st" and "passes_guards st sid txt"
  shows "editHistory (updateSegmentText st sid txt resp st)
           = push_history (historyIndex st)
               \<lparr>segmentId = sid, previousText = the (text_of st sid), newText = txt,
                timestamp = date_now st\<rparr> (editHistory st)"
    and "historyIndex (updateSegmentText st sid txt resp st)
           = min (historyIndex st + 1) (MAX_HISTORY - 1)"
  using assms
  by (simp_all add: updateSegmentText_def settle_history begin_apply history_ok_def)

text \<open>
  A record made by the callback of the latest render does truncate: when the cursor is
  not at the last entry, it drops every entry after the cursor and appends the new
  entry there; the cursor then points at the new, last entry, so \<open>canRedo\<close> is false and
  \<open>redo\<close> changes nothing. (A record made by the callback of an older render does
  not; it is evaluated in the last section on the hook.)
\<close>

theorem record_after_undo_truncates:
  assumes "history_ok st" and "canRedo st" and "passes_guards st sid txt"
  shows "let st' = updateSegmentText st sid txt resp st;
             item = \<lparr>segmentId = sid, previousText = the (text_of st sid), newText = txt,
                     timestamp = date_now st\<rparr>
         in editHistory st' = take (nat (historyIndex st + 1)) (editHistory st) @ [item]
            \<and> historyIndex st' = historyIndex st + 1
            \<and> \<not> canRedo st'
            \<and> redo st' resp' st' = Inr st'"
proof -
  let ?st' = "updateSegmentText st sid txt resp st"
  let ?item = "\<lparr>segmentId = sid, previousText = the (text_of st sid), newText = txt,
                 timestamp = date_now st\<rparr>"
  have b: "- 1 \<le> historyIndex st" "historyIndex st < int (length (editHistory st))"
    "int (length (editHistory st)) \<le> MAX_HISTORY"
    using assms(1) by (simp_all add: history_ok_def)
  have small: "historyIndex st + 1 < MAX_HISTORY"
    using assms(2) b by (simp add: canRedo_def)
  have h: "editHistory ?st' = take (nat (historyIndex st + 1)) (editHistory st) @ [?item]"
    using small by (simp add: edit_history [OF assms(1,3)] push_history_ok [OF b])
  have i: "historyIndex ?st' = historyIndex st + 1"
    using small by (simp add: edit_history [OF assms(1,3)])
  have "int (length (editHistory ?st')) = historyIndex st + 2"
    using h b by simp
  then have c: "\<not> canRedo ?st'"
    using i by (simp add: canRedo_def)
  then have "redo ?st' resp' ?st' = Inr ?st'"
    by (rule redo_at_end)
  then show ?thesis
    using h i c by (simp add: Let_def)
qed

subsection \<open>The length of the log, in every schedule\<close>









subsection \<open>The one-at-a-time schedule is a schedule of the program\<close>

lemma render_settled:
  assumes "settled sys"
  shows "render sys = sys\<lparr>renders := renders sys @ [current sys]\<rparr>"
  using assms by (simp add: render_def settled_def)



lemma trace_append: "trace (es @ fs) sys = trace fs (trace es sys)"
  by (induction es arbitrary: sys) simp_all




subsection \<open>Undo followed by redo\<close>

lemma text_of_flag [simp]:
  "text_of (st\<lparr>isUndoRedo := b\<rparr>) sid = text_of st sid"
  "text_of (st\<lparr>historyIndex := i\<rparr>) sid = text_of st sid"
  by (simp_all add: text_of_def)










section \<open>The hook on the small transcript\<close>


lemma example_texts:
  "text_of example_state (js ''s1'') = Some (js ''hello'')"
  "text_of example_state (js ''s2'') = Some (js ''world'')"
  "text_of example_state (js ''s9'') = None"
  by (simp_all add: text_of_def example_state_def loadTranscript_def loadTranscript_begin_def loadTranscript_settle_def
        speaker_names_effect_def
        example_transcript_def initial_state_def js_def)





lemmas run_defs =
  updateSegmentText_def updateSegmentText_begin_def updateSegmentText_settle_def
  settle_segment_def undo_def undo_begin_def redo_def redo_begin_def push_history_def
  js_slice0_def js_index_def set_segment_text_def revert_segment_text_def
  loadTranscript_def loadTranscript_begin_def loadTranscript_settle_def
  speaker_names_effect_def example_transcript_def example_state_def
  initial_state_def text_of_def MAX_HISTORY_def Let_def js_def

lemma edited_facts:
  "editHistory edited_state
     = [\<lparr>segmentId = js ''s1'', previousText = js ''hello'', newText = js ''hi'',
         timestamp = 0\<rparr>]"
  "historyIndex edited_state = 0"
  "isUndoRedo edited_state = False"
  "text_of edited_state (js ''s1'') = Some (js ''hi'')"
  by (simp_all add: edited_state_def run_defs)

lemma undone_facts:
  "editHistory undone_state = editHistory edited_state"
  "historyIndex undone_state = - 1"
  "isUndoRedo undone_state = False"
  "text_of undone_state (js ''s1'') = Some (js ''hello'')"
  by (simp_all add: undone_state_def edited_state_def run_defs)

lemma branch_facts:
  "length (editHistory branch_state) = 2"
  "historyIndex branch_state = 0"
  "isUndoRedo branch_state = False"
  "text_of branch_state (js ''s1'') = Some (js ''hi'')"
  "text_of branch_state (js ''s2'') = Some (js ''world'')"
  by (simp_all add: branch_state_def after_def run_defs)



theorem undo_redo_keep_history_witness:
  "isUndoRedo (edited_state\<lparr>isUndoRedo := True\<rparr>)
   \<and> editHistory (fst (updateSegmentText_begin edited_state (js ''s1'') (js ''hello'')
                         (edited_state\<lparr>isUndoRedo := True\<rparr>)))
       = editHistory edited_state
   \<and> js_index (editHistory edited_state) (historyIndex edited_state) \<noteq> None
   \<and> editHistory (undo edited_state Resolved edited_state) = editHistory edited_state
   \<and> historyIndex (undo edited_state Resolved edited_state) = historyIndex edited_state - 1
   \<and> canRedo undone_state
   \<and> - 1 \<le> historyIndex undone_state
   \<and> (\<exists>st'. redo undone_state Resolved undone_state = Inr st'
          \<and> editHistory st' = editHistory undone_state
          \<and> historyIndex st' = historyIndex undone_state + 1)"
proof -
  have a: "js_index (editHistory edited_state) (historyIndex edited_state) \<noteq> None"
    by (simp add: edited_facts js_index_def)
  have c: "canRedo undone_state" and i: "- 1 \<le> historyIndex undone_state"
    by (simp_all add: canRedo_def undone_facts edited_facts)
  note t1 = undo_redo_keep_history
              [of "edited_state\<lparr>isUndoRedo := True\<rparr>" edited_state "js ''s1''" "js ''hello''"
                  Resolved]
  note t2 = undo_redo_keep_history [of edited_state edited_state "js ''s1''" "js ''hello''" Resolved]
  note t3 = undo_redo_keep_history [of undone_state undone_state "js ''s1''" "js ''hello''" Resolved]
  from t3 i obtain st' where r: "redo undone_state Resolved undone_state = Inr st'"
    by blast
  with t3 c have "editHistory st' = editHistory undone_state
                  \<and> historyIndex st' = historyIndex undone_state + 1"
    by simp
  with r have "\<exists>st'. redo undone_state Resolved undone_state = Inr st'
          \<and> editHistory st' = editHistory undone_state
          \<and> historyIndex st' = historyIndex undone_state + 1"
    by blast
  then show ?thesis
    using t1 t2 a c i by simp
qed


theorem record_after_undo_truncates_witness:
  "history_ok branch_state
   \<and> canRedo branch_state
   \<and> passes_guards branch_state (js ''s1'') (js ''hey'')
   \<and> historyIndex (updateSegmentText branch_state (js ''s1'') (js ''hey'') Resolved branch_state)
       = 1
   \<and> length (editHistory
                (updateSegmentText branch_state (js ''s1'') (js ''hey'') Resolved branch_state))
       = 2
   \<and> \<not> canRedo (updateSegmentText branch_state (js ''s1'') (js ''hey'') Resolved branch_state)
   \<and> redo (updateSegmentText branch_state (js ''s1'') (js ''hey'') Resolved branch_state)
        Resolved (updateSegmentText branch_state (js ''s1'') (js ''hey'') Resolved branch_state)
       = Inr (updateSegmentText branch_state (js ''s1'') (js ''hey'') Resolved branch_state)"
proof -
  have ok: "history_ok branch_state"
    by (simp add: history_ok_def branch_facts MAX_HISTORY_def)
  have cr: "canRedo branch_state"
    by (simp add: canRedo_def branch_facts)
  have pg: "passes_guards branch_state (js ''s1'') (js ''hey'')"
    unfolding passes_guards_def branch_facts by (simp add: js_def)
  show ?thesis
    using record_after_undo_truncates [OF ok cr pg, of Resolved Resolved] ok cr pg
    by (simp add: Let_def branch_facts)
qed

lemmas trace_defs =
  render_def invoke_def responds_def load_responds_def without_def saving_def renaming_def
  initial_system_def load_events_def record_A_def record_B_def

lemma loaded_system:
  "trace load_events initial_system
     = \<lparr>current = example_state, renders = [initial_state, example_state], awaiting = [],
        labels_replaced = False\<rparr>"
  by (simp add: trace_defs example_state_def loadTranscript_def Let_def)


theorem updateSegmentText_failure_reverts_witness:
  "transcript example_state = Some example_transcript
   \<and> find (\<lambda>s. seg_id s = js ''s1'') (segments example_transcript)
       = Some \<lparr>seg_id = js ''s1'', seg_text = js ''hello'', original_text = None,
               seg_speaker_id = js ''A'', is_edited = False\<rparr>
   \<and> js ''hello'' \<noteq> js ''hi''
   \<and> text_of (updateSegmentText example_state (js ''s1'') (js ''hi'')
                (Rejected (Error (js ''offline''))) example_state) (js ''s1'')
       = Some (js ''hello'')
   \<and> error (updateSegmentText example_state (js ''s1'') (js ''hi'')
              (Rejected (Error (js ''offline''))) example_state)
       = Some (js ''offline'')"
proof -
  have t: "transcript example_state = Some example_transcript"
    by (simp add: example_state_def loadTranscript_def loadTranscript_begin_def loadTranscript_settle_def
        speaker_names_effect_def)
  have f: "find (\<lambda>s. seg_id s = js ''s1'') (segments example_transcript)
       = Some \<lparr>seg_id = js ''s1'', seg_text = js ''hello'', original_text = None,
               seg_speaker_id = js ''A'', is_edited = False\<rparr>"
    by (simp add: example_transcript_def)
  have ne: "seg_text \<lparr>seg_id = js ''s1'', seg_text = js ''hello'', original_text = None,
               seg_speaker_id = js ''A'', is_edited = False\<rparr> \<noteq> js ''hi''"
    by (simp add: js_def)
  show ?thesis
    using updateSegmentText_failure_reverts [OF t f ne, of "Error (js ''offline'')"] t f ne
    by (auto simp: example_texts message_of_def)
qed


section \<open>Two calls from one render, and callbacks of an older render\<close>

lemma after_A:
  "trace (load_events @ record_A) initial_system
     = \<lparr>current = edited_state, renders = [initial_state, example_state, edited_state],
        awaiting = [], labels_replaced = False\<rparr>"
proof -
  have "passes_guards example_state (js ''s1'') (js ''hi'')"
    unfolding passes_guards_def example_texts by (simp add: js_def)
  then obtain segment
    where "snd (updateSegmentText_begin example_state (js ''s1'') (js ''hi'') example_state)
             = Some segment"
    using begin_apply(1) by blast
  then show ?thesis
    by (simp add: trace_append loaded_system record_A_def render_def invoke_def responds_def
          without_def saving_def edited_state_def updateSegmentText_def settle_segment_def
          Let_def)
qed

lemma after_B:
  "trace record_B (trace (load_events @ record_A) initial_system)
     = \<lparr>current = updateSegmentText edited_state (js ''s2'') (js ''there'') Resolved edited_state,
        renders = [initial_state, example_state, edited_state,
                   updateSegmentText edited_state (js ''s2'') (js ''there'') Resolved edited_state],
        awaiting = [], labels_replaced = False\<rparr>"
proof -
  have "text_of edited_state (js ''s2'') = Some (js ''world'')"
    by (simp add: edited_state_def run_defs)
  then have "passes_guards edited_state (js ''s2'') (js ''there'')"
    unfolding passes_guards_def by (simp add: js_def)
  then obtain segment
    where "snd (updateSegmentText_begin edited_state (js ''s2'') (js ''there'') edited_state)
             = Some segment"
    using begin_apply(1) by blast
  then show ?thesis
    by (simp add: after_A record_B_def render_def invoke_def responds_def
          without_def saving_def updateSegmentText_def settle_segment_def Let_def)
qed



text \<open>
  With the cursor at -2 the next record slices the log with \<^verbatim>\<open>slice(0, -1)\<close>, which
  drops its last entry only: after the edits A and B and three calls of \<open>undo\<close> from one
  render, a record C keeps A and appends C, with the cursor at -1.
\<close>

lemma record_at_minus_two:
  "map newText (editHistory
     (current (trace [Invoke 3 Call_undo, Invoke 3 Call_undo, Invoke 3 Call_undo, Render,
                      Invoke 4 (Call_edit (js ''s1'') (js ''hey''))]
                 (trace record_B (trace (load_events @ record_A) initial_system)))))
     = [js ''hi'', js ''hey'']
   \<and> historyIndex
       (current (trace [Invoke 3 Call_undo, Invoke 3 Call_undo, Invoke 3 Call_undo, Render,
                        Invoke 4 (Call_edit (js ''s1'') (js ''hey''))]
                   (trace record_B (trace (load_events @ record_A) initial_system)))) = - 1"
  by (intro conjI; code_simp)

text \<open>
  Claim C3, evaluated. The edits A and B are recorded (log A, B; cursor 1). A third edit
  C is typed: the debounce timer holds the \<open>updateSegmentText\<close> of this render. Within
  the 500 ms, Ctrl+Z calls \<open>undo\<close> (cursor 0). The timer fires: the record slices the
  log with the captured cursor 1, so B is kept, and C is appended after it; the cursor
  advances from 0 to 1. The log is A, B, C with the cursor on B, \<open>canRedo\<close> is true, and
  \<open>redo\<close> of the next render moves the cursor to 2.
\<close>

theorem stale_record_keeps_future:
  "map newText (editHistory
     (current (trace [Invoke 3 Call_undo, Responds 0 Resolved, Render,
                      Invoke 3 (Call_edit (js ''s1'') (js ''hey'')), Responds 0 Resolved, Render]
                 (trace record_B (trace (load_events @ record_A) initial_system)))))
     = [js ''hi'', js ''there'', js ''hey'']
   \<and> historyIndex
       (current (trace [Invoke 3 Call_undo, Responds 0 Resolved, Render,
                        Invoke 3 (Call_edit (js ''s1'') (js ''hey'')), Responds 0 Resolved, Render]
                   (trace record_B (trace (load_events @ record_A) initial_system)))) = 1
   \<and> canRedo
       (current (trace [Invoke 3 Call_undo, Responds 0 Resolved, Render,
                        Invoke 3 (Call_edit (js ''s1'') (js ''hey'')), Responds 0 Resolved, Render]
                   (trace record_B (trace (load_events @ record_A) initial_system))))
   \<and> historyIndex
       (current (trace [Invoke 3 Call_undo, Responds 0 Resolved, Render,
                        Invoke 3 (Call_edit (js ''s1'') (js ''hey'')), Responds 0 Resolved, Render,
                        Invoke 5 Call_redo]
                   (trace record_B (trace (load_events @ record_A) initial_system)))) = 2"
  by (intro conjI; code_simp)

text \<open>
  Claim C5, evaluated. The edit A (hello to hi) is recorded and saved. An edit of s1 to
  "hey" is typed: the debounce timer holds the \<open>updateSegmentText\<close> of this render, whose
  transcript has the text "hi". Ctrl+Z calls \<open>undo\<close>: the text is "hello" again. The
  timer fires and the request fails: the \<^verbatim>\<open>catch\<close> block writes the captured text
  "hi", not the text "hello" the segment had before the call.
\<close>

theorem stale_revert_writes_captured_text:
  "text_of
     (current (trace [Invoke 2 Call_undo, Responds 0 Resolved, Render]
                 (trace (load_events @ record_A) initial_system))) (js ''s1'')
     = Some (js ''hello'')
   \<and> text_of
       (current (trace [Invoke 2 Call_undo, Responds 0 Resolved, Render,
                        Invoke 2 (Call_edit (js ''s1'') (js ''hey'')),
                        Responds 0 (Rejected (Error (js ''offline'')))]
                   (trace (load_events @ record_A) initial_system))) (js ''s1'')
       = Some (js ''hi'')
   \<and> error
       (current (trace [Invoke 2 Call_undo, Responds 0 Resolved, Render,
                        Invoke 2 (Call_edit (js ''s1'') (js ''hey'')),
                        Responds 0 (Rejected (Error (js ''offline'')))]
                   (trace (load_events @ record_A) initial_system)))
       = Some (js ''offline'')"
  by (intro conjI; code_simp)


section \<open>Renaming a speaker\<close>


lemmas rename_defs =
  renameSpeaker_def renameSpeaker_begin_def renameSpeaker_settle_def set_custom_name_def
  speaker_names_effect_def names_of_labels_def name_or_default_def
  message_of_def loadTranscript_def
  loadTranscript_begin_def loadTranscript_settle_def example_transcript_def
  example_state_def initial_state_def Let_def

lemma getSpeakerName_own:
  "speakerNames r speakerId = Some n \<Longrightarrow> n \<noteq> [] \<Longrightarrow> getSpeakerName r speakerId = Str n"
  by (simp add: getSpeakerName_def js_get_def)

lemma failed_rename_names:
  "speakerNames
     (renameSpeaker example_state (js ''L1'') (js ''Ann'') (Rejected (Error (js ''offline'')))
        example_state) (js ''A'') = Some (js ''Speaker A'')"
  "speakerNames
       (after [Rename (js ''L1'') (js ''Ann'') (Rejected (Error (js ''offline''))),
               Rename (js ''L2'') (js ''Bo'') Resolved] example_state) (js ''A'')
       = Some (js ''Ann'')"
  by (simp_all add: rename_defs after_def js_def)

text \<open>
  Claim C8, evaluated. The label L1 of speaker A has no custom name. A rename of L1 to
  "Ann" whose request fails leaves the displayed name at the default "Speaker A" and sets
  the error message, but the label stored in the transcript keeps the custom name "Ann":
  the \<^verbatim>\<open>catch\<close> block restores \<open>speakerNames\<close> only. The next time the effect
  rebuilds the names from the labels (here after a rename of the other label), speaker A
  is displayed as "Ann".
\<close>

theorem renameSpeaker_failure_keeps_custom_name:
  "getSpeakerName
     (renameSpeaker example_state (js ''L1'') (js ''Ann'') (Rejected (Error (js ''offline'')))
        example_state) (js ''A'') = Str (js ''Speaker A'')
   \<and> error
       (renameSpeaker example_state (js ''L1'') (js ''Ann'') (Rejected (Error (js ''offline'')))
          example_state) = Some (js ''offline'')
   \<and> map_option (\<lambda>t. map custom_name (speaker_labels t))
       (transcript
          (renameSpeaker example_state (js ''L1'') (js ''Ann'')
             (Rejected (Error (js ''offline''))) example_state))
       = Some [Some (js ''Ann''), Some (js ''Bea'')]
   \<and> getSpeakerName
       (after [Rename (js ''L1'') (js ''Ann'') (Rejected (Error (js ''offline''))),
               Rename (js ''L2'') (js ''Bo'') Resolved] example_state) (js ''A'')
       = Str (js ''Ann'')"
proof (intro conjI)
  show "getSpeakerName
     (renameSpeaker example_state (js ''L1'') (js ''Ann'') (Rejected (Error (js ''offline'')))
        example_state) (js ''A'') = Str (js ''Speaker A'')"
    by (rule getSpeakerName_own [OF failed_rename_names(1)]) (simp add: js_def)
  show "getSpeakerName
       (after [Rename (js ''L1'') (js ''Ann'') (Rejected (Error (js ''offline''))),
               Rename (js ''L2'') (js ''Bo'') Resolved] example_state) (js ''A'')
       = Str (js ''Ann'')"
    by (rule getSpeakerName_own [OF failed_rename_names(2)]) (simp add: js_def)
qed (simp_all add: rename_defs js_def)

section \<open>Properties of the status poll loop\<close>

lemma poll_step_inactive:
  assumes "\<not> interval_active st"
  shows "\<not> interval_active (poll_step e st)"
    and "status_requests (poll_step e st) = status_requests st"
    and "clear_calls st \<le> clear_calls (poll_step e st)"
    and "clear_calls (poll_step e st) + in_flight (poll_step e st)
           \<le> clear_calls st + in_flight st"
  using assms
  by (cases e; auto simp: interval_fires_def poll_settles_def clearInterval_def Let_def
        split: poll_outcome.splits)+

lemma poll_run_inactive:
  "\<not> interval_active st \<Longrightarrow>
     \<not> interval_active (poll_run es st)
     \<and> status_requests (poll_run es st) = status_requests st
     \<and> clear_calls st \<le> clear_calls (poll_run es st)
     \<and> clear_calls (poll_run es st) + in_flight (poll_run es st)
         \<le> clear_calls st + in_flight st"
proof (induction es arbitrary: st)
  case Nil
  then show ?case by simp
next
  case (Cons e es)
  note s = poll_step_inactive [OF Cons.prems, of e]
  note r = Cons.IH [OF s(1)]
  show ?case
    using s r by simp
qed

lemma poll_step_active_clear:
  assumes "interval_active st \<longrightarrow> clear_calls st = 0"
  shows "interval_active (poll_step e st) \<longrightarrow> clear_calls (poll_step e st) = 0"
  using assms
  by (cases e; auto simp: interval_fires_def poll_settles_def clearInterval_def Let_def
        split: poll_outcome.splits)

lemma poll_run_active_clear:
  "interval_active st \<longrightarrow> clear_calls st = 0 \<Longrightarrow>
   interval_active (poll_run es st) \<longrightarrow> clear_calls (poll_run es st) = 0"
proof (induction es arbitrary: st)
  case Nil
  then show ?case by simp
next
  case (Cons e es)
  show ?case
    using Cons.IH [OF poll_step_active_clear [OF Cons.prems, of e]] by simp
qed

lemma terminal_settles:
  assumes "0 < in_flight st" and "terminal outcome"
  shows "\<not> interval_active (poll_settles outcome st)"
    and "clear_calls (poll_settles outcome st) = clear_calls st + 1"
    and "in_flight (poll_settles outcome st) = in_flight st - 1"
    and "status_requests (poll_settles outcome st) = status_requests st"
  using assms
  by (auto simp: terminal_def poll_settles_def clearInterval_def Let_def
        split: poll_outcome.splits)

text \<open>
  Claim C9, as the code has it. Once a poll observes a terminal status or its request
  throws, that poll calls \<open>clearInterval\<close>; from then on the interval stays cancelled
  and no further status request is issued, whatever happens next. Polls that were
  already in flight still settle, and each of them that makes such an observation calls
  \<open>clearInterval\<close> again: the number of calls is at least one and at most the number of
  polls that were in flight, and it is exactly one when the observing poll was the only
  one in flight and the interval was still scheduled.
\<close>

theorem poll_stops_after_terminal:
  assumes "st = poll_run es0 polling_started" and "0 < in_flight st" and "terminal outcome"
  shows "let st1 = poll_settles outcome st; st2 = poll_run es st1
         in \<not> interval_active st1
            \<and> clear_calls st1 = clear_calls st + 1
            \<and> \<not> interval_active st2
            \<and> status_requests st2 = status_requests st
            \<and> 1 \<le> clear_calls st2
            \<and> clear_calls st2 \<le> clear_calls st + in_flight st
            \<and> (interval_active st \<and> in_flight st = 1 \<longrightarrow> clear_calls st2 = 1)"
proof -
  let ?st1 = "poll_settles outcome st"
  let ?st2 = "poll_run es ?st1"
  note t = terminal_settles [OF assms(2,3)]
  note r = poll_run_inactive [OF t(1), of es]
  have "interval_active polling_started \<longrightarrow> clear_calls polling_started = 0"
    by (simp add: polling_started_def transcribe_def uploaded_state_def js_def)
  then have z: "interval_active st \<longrightarrow> clear_calls st = 0"
    unfolding assms(1) by (rule poll_run_active_clear)
  have "1 \<le> clear_calls ?st2" and "clear_calls ?st2 \<le> clear_calls st + in_flight st"
    and "interval_active st \<and> in_flight st = 1 \<longrightarrow> clear_calls ?st2 = 1"
    using t r z assms(2) by auto
  then show ?thesis
    using t r by (simp add: Let_def)
qed

theorem poll_stops_after_terminal_witness:
  "0 < in_flight (poll_run [Interval_fires] polling_started)
   \<and> terminal (Answered \<lparr>status = status_failed, progress = None, error_message = None\<rparr>)
   \<and> \<not> interval_active
         (poll_run [Interval_fires, Interval_fires]
            (poll_settles
               (Answered \<lparr>status = status_failed, progress = None, error_message = None\<rparr>)
               (poll_run [Interval_fires] polling_started)))
   \<and> status_requests
         (poll_run [Interval_fires, Interval_fires]
            (poll_settles
               (Answered \<lparr>status = status_failed, progress = None, error_message = None\<rparr>)
               (poll_run [Interval_fires] polling_started))) = 1
   \<and> clear_calls
         (poll_run [Interval_fires, Interval_fires]
            (poll_settles
               (Answered \<lparr>status = status_failed, progress = None, error_message = None\<rparr>)
               (poll_run [Interval_fires] polling_started))) = 1"
proof -
  let ?failed = "Answered \<lparr>status = status_failed, progress = None, error_message = None\<rparr>"
  let ?st = "poll_run [Interval_fires] polling_started"
  have f: "0 < in_flight ?st" and a: "interval_active ?st" and one: "in_flight ?st = 1"
    and n: "status_requests ?st = 1"
    by (simp_all add: interval_fires_def polling_started_def transcribe_def uploaded_state_def js_def)
  have t: "terminal ?failed"
    by (simp add: terminal_def)
  show ?thesis
    using poll_stops_after_terminal [OF refl f t, of "[Interval_fires, Interval_fires]"] f t a one n
    by (simp add: Let_def)
qed

text \<open>
  Two polls in flight, both answered "failed": \<open>clearInterval\<close> is called twice.
\<close>

theorem poll_overlap_clears_twice:
  "clear_calls
     (poll_run
        [Interval_fires, Interval_fires,
         Poll_settles (Answered \<lparr>status = status_failed, progress = None, error_message = None\<rparr>),
         Poll_settles (Answered \<lparr>status = status_failed, progress = None, error_message = None\<rparr>)]
        polling_started) = 2"
  by (simp add: interval_fires_def poll_settles_def clearInterval_def polling_started_def
        transcribe_def uploaded_state_def js_def Let_def)

end
